theory Spec2Isabelle
  imports Main "HOL-Library.List_Lexorder" "HOL-Library.Char_ord" "HOL-Library.Sublist"
    "HOL-Library.Code_Target_Nat"
begin

section \<open>JavaScript values of the index tree\<close>

text \<open>
  The tree that \<^verbatim>\<open>index.js\<close> builds holds two kinds of JavaScript values: strings (the
  load expressions \<^verbatim>\<open>require('./...')\<close>) and plain objects (the namespaces). An object is
  the list of its own properties in the order in which \<^verbatim>\<open>Object.keys\<close>, \<^verbatim>\<open>_.keys\<close> and
  \<^verbatim>\<open>JSON.stringify\<close> enumerate them. A string of the model is a list of 8-bit characters,
  compared by character code as JavaScript compares code units. A number appears only
  as the \<^verbatim>\<open>length\<close> of a string that the walk of \<^verbatim>\<open>filenameToJson\<close> has entered.
\<close>

datatype jsval = Str string | Num nat | Obj "(string \<times> jsval) list"

text \<open>
  \<open>TypeError\<close> is the exception of the program. \<open>BuiltinMember\<close> is no outcome of the
  program: it marks a call that reads a member which the value inherits from a built-in
  prototype (or assigns to \<^verbatim>\<open>__proto__\<close>). The source then goes on with a built-in function
  or prototype object and may write to it; the model does not follow it there and says
  nothing about what such a call returns or about the calls after it.
\<close>

datatype error = TypeError | BuiltinMember

subsection \<open>Property order of an object\<close>

text \<open>
  An own property whose key is an array index (the canonical decimal text of an integer
  below \<open>2^32 - 1\<close>) is enumerated before every other key, in ascending numeric order,
  whenever it was created; all other keys are enumerated in the order of their creation
  (ECMAScript, OrdinaryOwnPropertyKeys).
\<close>

definition is_digit :: "char \<Rightarrow> bool" where
  "is_digit c \<longleftrightarrow> CHR ''0'' \<le> c \<and> c \<le> CHR ''9''"

definition index_val :: "string \<Rightarrow> nat" where
  "index_val k = foldl (\<lambda>n c. 10 * n + (of_char c - of_char CHR ''0'')) 0 k"

definition is_array_index :: "string \<Rightarrow> bool" where
  "is_array_index k \<longleftrightarrow>
     k \<noteq> [] \<and> list_all is_digit k \<and> (k = ''0'' \<or> hd k \<noteq> CHR ''0'') \<and>
     index_val k < 4294967295"

fun obj_replace :: "string \<Rightarrow> jsval \<Rightarrow> (string \<times> jsval) list \<Rightarrow> (string \<times> jsval) list" where
  "obj_replace k v [] = []"
| "obj_replace k v ((k', v') # ps) =
     (if k' = k then (k, v) # ps else (k', v') # obj_replace k v ps)"

fun obj_insert_index :: "string \<Rightarrow> jsval \<Rightarrow> (string \<times> jsval) list \<Rightarrow> (string \<times> jsval) list" where
  "obj_insert_index k v [] = [(k, v)]"
| "obj_insert_index k v ((k', v') # ps) =
     (if is_array_index k' \<and> index_val k' < index_val k
      then (k', v') # obj_insert_index k v ps
      else (k, v) # (k', v') # ps)"

text \<open>
  \<^verbatim>\<open>o[k] = v\<close> on the property list of an object: an existing property keeps its place,
  a new array index goes to its numeric place, any other new key goes to the end.
\<close>

definition obj_put :: "string \<Rightarrow> jsval \<Rightarrow> (string \<times> jsval) list \<Rightarrow> (string \<times> jsval) list" where
  "obj_put k v ps =
     (if map_of ps k \<noteq> None then obj_replace k v ps
      else if is_array_index k then obj_insert_index k v ps
      else ps @ [(k, v)])"

subsection \<open>Reading and writing properties\<close>

text \<open>
  The members of \<^verbatim>\<open>Object.prototype\<close>, which every value of the tree inherits, and the
  further members of \<^verbatim>\<open>String.prototype\<close> and \<^verbatim>\<open>Number.prototype\<close>. The list for strings
  has every name that an edition of ECMAScript (with its Annex B) or the V8 engine has
  given to a string method, so that a name outside the lists is inherited on no engine.
\<close>

definition object_prototype_names :: "string list" where
  "object_prototype_names =
     [''constructor'', ''hasOwnProperty'', ''isPrototypeOf'', ''propertyIsEnumerable'',
      ''toLocaleString'', ''toString'', ''valueOf'', ''__proto__'',
      ''__defineGetter__'', ''__defineSetter__'', ''__lookupGetter__'', ''__lookupSetter__'']"

definition string_prototype_names :: "string list" where
  "string_prototype_names =
     [''anchor'', ''at'', ''big'', ''blink'', ''bold'', ''charAt'', ''charCodeAt'',
      ''codePointAt'', ''concat'', ''contains'', ''endsWith'', ''fixed'', ''fontcolor'',
      ''fontsize'', ''includes'', ''indexOf'', ''isWellFormed'', ''italics'',
      ''lastIndexOf'', ''link'', ''localeCompare'', ''match'', ''matchAll'', ''normalize'',
      ''padEnd'', ''padStart'', ''repeat'', ''replace'', ''replaceAll'', ''search'',
      ''slice'', ''small'', ''split'', ''startsWith'', ''strike'', ''sub'', ''substr'',
      ''substring'', ''sup'', ''toLocaleLowerCase'', ''toLocaleUpperCase'', ''toLowerCase'',
      ''toUpperCase'', ''toWellFormed'', ''trim'', ''trimEnd'', ''trimLeft'', ''trimRight'',
      ''trimStart'']"

definition number_prototype_names :: "string list" where
  "number_prototype_names = [''toExponential'', ''toFixed'', ''toPrecision'']"

text \<open>
  \<^verbatim>\<open>t[k]\<close>. An object gives its own property, else what it inherits, else
  \<^verbatim>\<open>undefined\<close> (\<open>None\<close>). A string owns its characters under their indices and its
  \<^verbatim>\<open>length\<close>; a number owns nothing.
\<close>

fun get_prop :: "jsval \<Rightarrow> string \<Rightarrow> error + jsval option" where
  "get_prop (Obj ps) k =
     (case map_of ps k of
        Some v \<Rightarrow> Inr (Some v)
      | None \<Rightarrow> if k \<in> set object_prototype_names then Inl BuiltinMember else Inr None)"
| "get_prop (Str s) k =
     (if is_array_index k \<and> index_val k < length s then Inr (Some (Str [s ! index_val k]))
      else if k = ''length'' then Inr (Some (Num (length s)))
      else if k \<in> set string_prototype_names \<or> k \<in> set object_prototype_names
      then Inl BuiltinMember
      else Inr None)"
| "get_prop (Num n) k =
     (if k \<in> set number_prototype_names \<or> k \<in> set object_prototype_names
      then Inl BuiltinMember
      else Inr None)"

text \<open>
  \<^verbatim>\<open>t[k] = v\<close>. The file is not in strict mode, so an assignment to a property of a
  string or a number is silently ignored.
\<close>

fun set_prop :: "jsval \<Rightarrow> string \<Rightarrow> jsval \<Rightarrow> jsval" where
  "set_prop (Obj ps) k v = Obj (obj_put k v ps)"
| "set_prop (Str s) k v = Str s"
| "set_prop (Num n) k v = Num n"

section \<open>String helpers\<close>

text \<open>\<^verbatim>\<open>_.startsWith(string, target)\<close>.\<close>

definition startsWith :: "string \<Rightarrow> string \<Rightarrow> bool" where
  "startsWith s target \<longleftrightarrow> take (length target) s = target"

text \<open>\<^verbatim>\<open>s.split(sep)\<close> for a separator of one character; the result is never empty.\<close>

fun split :: "char \<Rightarrow> string \<Rightarrow> string list" where
  "split sep [] = [[]]"
| "split sep (c # cs) =
     (if c = sep then [] # split sep cs
      else (case split sep cs of
              [] \<Rightarrow> [[c]]
            | p # ps \<Rightarrow> (c # p) # ps))"

text \<open>\<^verbatim>\<open>s.slice(-n)\<close> and \<^verbatim>\<open>s.slice(0, -n)\<close>.\<close>

definition slice_last :: "nat \<Rightarrow> string \<Rightarrow> string" where
  "slice_last n s = drop (length s - n) s"

definition slice_but_last :: "nat \<Rightarrow> string \<Rightarrow> string" where
  "slice_but_last n s = take (length s - n) s"

section \<open>The identifier deriver\<close>

definition upper_chars :: string where
  "upper_chars = ''ABCDEFGHIJKLMNOPQRSTUVWXYZ''"

definition lower_chars :: string where
  "lower_chars = ''abcdefghijklmnopqrstuvwxyz''"

definition is_upper :: "char \<Rightarrow> bool" where
  "is_upper c \<longleftrightarrow> CHR ''A'' \<le> c \<and> c \<le> CHR ''Z''"

definition is_lower :: "char \<Rightarrow> bool" where
  "is_lower c \<longleftrightarrow> CHR ''a'' \<le> c \<and> c \<le> CHR ''z''"

definition toLowerCase :: "string \<Rightarrow> string" where
  "toLowerCase s =
     map (\<lambda>c. case map_of (zip upper_chars lower_chars) c of Some l \<Rightarrow> l | None \<Rightarrow> c) s"

definition toUpperCase :: "string \<Rightarrow> string" where
  "toUpperCase s =
     map (\<lambda>c. case map_of (zip lower_chars upper_chars) c of Some u \<Rightarrow> u | None \<Rightarrow> c) s"

text \<open>
  Modelled from the spec: the Identifier Deriver is lodash's \<^verbatim>\<open>_.camelCase\<close>, a library
  that is not part of the source file. The spec asks for a transformation that collapses
  separators and punctuation, capitalizes each later word boundary and starts in lower
  case (\<^verbatim>\<open>keyword.table\<close> gives \<^verbatim>\<open>keywordTable\<close>). The model is lodash 3 on ASCII text:
  the words are the successive matches of
  \<^verbatim>\<open>[A-Z]+(?=[A-Z][a-z]+)|[A-Z]?[a-z]+|[A-Z]+|[0-9]+\<close>; every word is put in lower case
  and every word but the first gets a capital first letter.
\<close>

function js_words :: "string \<Rightarrow> string list" where
  "js_words [] = []"
| "js_words (c # cs) =
     (let s = c # cs;
          us = takeWhile is_upper s;
          after_us = dropWhile is_upper s;
          w = (if is_upper c then
                 (if after_us \<noteq> [] \<and> is_lower (hd after_us) then
                    (if length us \<ge> 2 then butlast us
                     else c # takeWhile is_lower after_us)
                  else us)
               else if is_lower c then takeWhile is_lower s
               else if is_digit c then takeWhile is_digit s
               else [])
      in if w = [] then js_words cs else w # js_words (drop (length w) s))"
  by pat_completeness auto
termination
  by (relation "measure length") (auto simp: Let_def)

fun compound :: "bool \<Rightarrow> string list \<Rightarrow> string" where
  "compound first [] = []"
| "compound first (w # ws) =
     (let l = toLowerCase w
      in (if first then l else toUpperCase (take 1 l) @ drop 1 l) @ compound False ws)"

definition camelCase :: "string \<Rightarrow> string" where
  "camelCase s = compound True (js_words s)"

section \<open>The tree builder\<close>

definition require_expr :: "string \<Rightarrow> jsval" where
  "require_expr fullLocation = Str (''require('' @ [CHR 0x27] @ ''./'' @ fullLocation @ [CHR 0x27] @ '')'')"

text \<open>The decimal text of a number, as \<^verbatim>\<open>n + ''\<close> gives it.\<close>

function decimal :: "nat \<Rightarrow> string" where
  "decimal n =
     (if n < 10 then [''0123456789'' ! n]
      else decimal (n div 10) @ [''0123456789'' ! (n mod 10)])"
  by pat_completeness auto
termination
  by (relation "measure id") auto

text \<open>
  \<^verbatim>\<open>baseToString(value)\<close> of lodash, with which \<^verbatim>\<open>_.startsWith\<close> begins: \<^verbatim>\<open>undefined\<close>
  gives the empty string and any other value gives \<^verbatim>\<open>value + ''\<close>. For an object this
  calls \<^verbatim>\<open>valueOf\<close>, which does not give a primitive, and then \<^verbatim>\<open>toString\<close>: the
  inherited one gives \<^verbatim>\<open>[object Object]\<close>, and an own property of that name, which in
  the tree is never a function, makes the conversion throw.
\<close>

fun baseToString :: "jsval option \<Rightarrow> error + string" where
  "baseToString None = Inr []"
| "baseToString (Some (Str s)) = Inr s"
| "baseToString (Some (Num n)) = Inr (decimal n)"
| "baseToString (Some (Obj ps)) =
     (if map_of ps ''toString'' \<noteq> None then Inl TypeError else Inr ''[object Object]'')"

text \<open>
  \<^verbatim>\<open>handleConflicts(treeObject, parentKey)\<close>; the first argument of the model is the
  setting \<^verbatim>\<open>module.exports.appendToConflicts\<close>. The result is \<^verbatim>\<open>treeObject\<close> after the
  call.
\<close>

definition handleConflicts :: "string \<Rightarrow> jsval \<Rightarrow> string \<Rightarrow> error + jsval" where
  "handleConflicts appendToConflicts treeObject parentKey =
     (case get_prop treeObject parentKey of
        Inl e \<Rightarrow> Inl e
      | Inr value \<Rightarrow>
          (case baseToString value of
             Inl e \<Rightarrow> Inl e
           | Inr text \<Rightarrow>
               (if startsWith text ''require(''
                then (case value of
                        None \<Rightarrow> Inr treeObject
                      | Some v \<Rightarrow>
                          if parentKey @ appendToConflicts = ''__proto__''
                          then Inl BuiltinMember
                          else Inr (set_prop
                                      (set_prop treeObject (parentKey @ appendToConflicts) v)
                                      parentKey (Obj [])))
                else Inr treeObject)))"

text \<open>
  \<^verbatim>\<open>attachFilenameToLeafNode(treeObject, filenamePart, fullLocation, parentKey)\<close>, with
  \<open>None\<close> for an undefined \<^verbatim>\<open>parentKey\<close>. The child \<^verbatim>\<open>treeObject[parentKey]\<close> is changed
  in place, which the model writes back into the parent; assigning to a property of
  \<^verbatim>\<open>undefined\<close> throws.
\<close>

definition attachFilenameToLeafNode ::
    "string \<Rightarrow> jsval \<Rightarrow> string \<Rightarrow> string \<Rightarrow> string option \<Rightarrow> error + jsval" where
  "attachFilenameToLeafNode appendToConflicts treeObject filenamePart fullLocation parentKey =
     (case parentKey of
        None \<Rightarrow>
          Inr (set_prop treeObject (camelCase filenamePart) (require_expr fullLocation))
      | Some pk \<Rightarrow>
          (case handleConflicts appendToConflicts treeObject pk of
             Inl e \<Rightarrow> Inl e
           | Inr t \<Rightarrow>
               (case get_prop t pk of
                  Inl e \<Rightarrow> Inl e
                | Inr None \<Rightarrow> Inl TypeError
                | Inr (Some child) \<Rightarrow>
                    Inr (set_prop t pk
                           (set_prop child (camelCase filenamePart)
                              (require_expr fullLocation))))))"

text \<open>
  The callback of \<^verbatim>\<open>_.reduce\<close> in \<^verbatim>\<open>filenameToJson\<close>, run over the directory segments
  that are left. The counter \<^verbatim>\<open>traversals\<close> starts at the number of segments and loses
  one per call, so it is zero exactly at the last segment. The callback returns
  \<^verbatim>\<open>treeObject[locationPart]\<close>; when that is \<^verbatim>\<open>undefined\<close> the next call reads a property
  of \<^verbatim>\<open>undefined\<close> and throws. The result is the value of \<^verbatim>\<open>treeObject\<close> after the walk.
\<close>

fun reduce_parts :: "string \<Rightarrow> string \<Rightarrow> string \<Rightarrow> jsval \<Rightarrow> string list \<Rightarrow> error + jsval" where
  "reduce_parts appendToConflicts filenamePart filename treeObject [] = Inr treeObject"
| "reduce_parts appendToConflicts filenamePart filename treeObject (locationPart # rest) =
     (case get_prop treeObject locationPart of
        Inl e \<Rightarrow> Inl e
      | Inr value \<Rightarrow>
          (let t = (if value = None
                    then set_prop treeObject locationPart (Obj [])
                    else treeObject)
           in if rest = []
              then attachFilenameToLeafNode appendToConflicts t filenamePart filename
                     (Some locationPart)
              else (case get_prop t locationPart of
                      Inl e \<Rightarrow> Inl e
                    | Inr None \<Rightarrow> Inl TypeError
                    | Inr (Some child) \<Rightarrow>
                        (case reduce_parts appendToConflicts filenamePart filename child rest of
                           Inl e \<Rightarrow> Inl e
                         | Inr child' \<Rightarrow> Inr (set_prop t locationPart child')))))"

text \<open>
  \<^verbatim>\<open>filenameToJson(jsonObject, filename)\<close>; \<open>sep\<close> is \<^verbatim>\<open>path.sep\<close> of the host. The
  result is the tree after the call, or the exception the call throws.
\<close>

definition filenameToJson :: "string \<Rightarrow> char \<Rightarrow> jsval \<Rightarrow> string \<Rightarrow> error + jsval" where
  "filenameToJson appendToConflicts sep jsonObject filename =
     (let parts = split sep filename;
          filenamePart = slice_but_last 3 (last parts);
          locationParts = butlast parts
      in case (if length locationParts = 0
               then attachFilenameToLeafNode appendToConflicts jsonObject filenamePart filename None
               else Inr jsonObject) of
           Inl e \<Rightarrow> Inl e
         | Inr t \<Rightarrow> reduce_parts appendToConflicts filenamePart filename t locationParts)"

text \<open>The \<^verbatim>\<open>file\<close> events of \<^verbatim>\<open>go\<close>: every relative path goes into the same tree.\<close>

fun insert_files :: "string \<Rightarrow> char \<Rightarrow> jsval \<Rightarrow> string list \<Rightarrow> error + jsval" where
  "insert_files appendToConflicts sep json [] = Inr json"
| "insert_files appendToConflicts sep json (filename # filenames) =
     (case filenameToJson appendToConflicts sep json filename of
        Inl e \<Rightarrow> Inl e
      | Inr json' \<Rightarrow> insert_files appendToConflicts sep json' filenames)"

section \<open>The deterministic serializer\<close>

text \<open>
  \<^verbatim>\<open>sortJson(json)\<close>: a string is returned as it is; for an object the keys are sorted
  with the default comparison of \<^verbatim>\<open>Array.prototype.sort\<close> (strings by code unit) and
  assigned one after the other to a fresh object.
\<close>

function sortJson :: "jsval \<Rightarrow> jsval" where
  "sortJson (Str s) = Str s"
| "sortJson (Num n) = Num n"
| "sortJson (Obj ps) =
     Obj (foldl (\<lambda>sorted key. case map_of ps key of
                                   None \<Rightarrow> sorted
                                 | Some v \<Rightarrow> obj_put key (sortJson v) sorted)
            [] (sort (map fst ps)))"
  by pat_completeness auto
termination
proof -
  have less: "size v < Suc (size_list (size_prod (\<lambda>_. 0) size) ps)"
    if "map_of ps k = Some v" for ps :: "(string \<times> jsval) list" and k v
    using that by (induction ps) (auto split: if_splits)
  show ?thesis
    by (relation "measure size") (auto dest: less)
qed

text \<open>
  The \<^verbatim>\<open>end\<close> event of \<^verbatim>\<open>go\<close> up to the call of \<^verbatim>\<open>sortJson\<close>: the tree built from
  the paths, sorted.
\<close>

definition go_tree :: "string \<Rightarrow> char \<Rightarrow> string list \<Rightarrow> error + jsval" where
  "go_tree appendToConflicts sep filenames =
     (case insert_files appendToConflicts sep (Obj []) filenames of
        Inl e \<Rightarrow> Inl e
      | Inr json \<Rightarrow> Inr (sortJson json))"

section \<open>The lazy-binding rewriter\<close>

text \<open>
  The regular expression of \<^verbatim>\<open>convertToLazyRequireJson\<close> is
  \<^verbatim>\<open>/(\w+): require\('\.\/([\w\.\/]+)'\)/g\<close>. A match that starts at the head of the text
  takes the longest run of word characters as the key (a shorter run would be followed
  by a word character, not by the colon), then the literal text, then the longest run of
  word characters, dots and slashes as the argument, then the closing quote and bracket.
\<close>

definition is_word_char :: "char \<Rightarrow> bool" where
  "is_word_char c \<longleftrightarrow> is_lower c \<or> is_upper c \<or> is_digit c \<or> c = CHR ''_''"

definition is_path_char :: "char \<Rightarrow> bool" where
  "is_path_char c \<longleftrightarrow> is_word_char c \<or> c = CHR ''.'' \<or> c = CHR ''/''"

definition match_here :: "string \<Rightarrow> (string \<times> string \<times> string) option" where
  "match_here s =
     (let key = takeWhile is_word_char s;
          s1 = dropWhile is_word_char s;
          lit = '': require('./'';
          s2 = drop (length lit) s1;
          arg = takeWhile is_path_char s2;
          s3 = dropWhile is_path_char s2
      in if key \<noteq> [] \<and> startsWith s1 lit \<and> arg \<noteq> [] \<and> startsWith s3 ''')''
         then Some (key, arg, drop 2 s3)
         else None)"

text \<open>
  \<^verbatim>\<open>jsonString.replace\<close> with the global flag: the text is scanned from the left, every
  match is replaced by \<^verbatim>\<open>get $1() { return require('./$2'); }\<close> and the scan goes on
  behind the match.
\<close>

function convertToLazyRequireJson :: "string \<Rightarrow> string" where
  "convertToLazyRequireJson [] = []"
| "convertToLazyRequireJson (c # cs) =
     (case match_here (c # cs) of
        Some (key, arg, rest) \<Rightarrow>
          ''get '' @ key @ ''() { return require('./'' @ arg @ '''); }''
            @ convertToLazyRequireJson rest
      | None \<Rightarrow> c # convertToLazyRequireJson cs)"
  by pat_completeness auto
termination
proof -
  have shorter: "length rest < length s"
    if m: "match_here s = Some (key, arg, rest)" for s key arg rest
  proof -
    have "\<exists>n. rest = drop 2 (dropWhile is_path_char (drop n (dropWhile is_word_char s)))
             \<and> takeWhile is_word_char s \<noteq> []"
      using m unfolding match_here_def Let_def
      by (auto split: if_splits)
    then obtain n
      where r: "rest = drop 2 (dropWhile is_path_char (drop n (dropWhile is_word_char s)))"
        and k: "takeWhile is_word_char s \<noteq> []"
      by blast
    have "length rest \<le> length (dropWhile is_word_char s)"
      unfolding r
      by (simp add: le_diff_conv trans_le_add1 order_trans [OF length_dropWhile_le])
    moreover have "length (dropWhile is_word_char s) < length s"
      using k by (cases s) (auto simp: le_imp_less_Suc length_dropWhile_le split: if_splits)
    ultimately show ?thesis by simp
  qed
  show ?thesis
    by (relation "measure length") (auto dest: shorter)
qed

section \<open>The default eligibility predicate\<close>

text \<open>
  \<^verbatim>\<open>filename.match(/node_modules/)\<close> is not null exactly when the text occurs somewhere
  in the file name.
\<close>

fun matches_literal :: "string \<Rightarrow> string \<Rightarrow> bool" where
  "matches_literal pat [] \<longleftrightarrow> pat = []"
| "matches_literal pat (c # cs) \<longleftrightarrow> startsWith (c # cs) pat \<or> matches_literal pat cs"

definition shouldBeIndexed :: "string \<Rightarrow> bool" where
  "shouldBeIndexed filename \<longleftrightarrow>
     slice_last 3 filename = ''.js'' \<and>
     slice_last 8 filename \<noteq> ''index.js'' \<and>
     \<not> matches_literal ''node_modules'' filename"

section \<open>Predicates on trees\<close>

text \<open>The value that a namespace stores under a key: its own property.\<close>

fun own_prop :: "jsval \<Rightarrow> string \<Rightarrow> jsval option" where
  "own_prop (Obj ps) k = map_of ps k"
| "own_prop (Str s) k = None"
| "own_prop (Num n) k = None"

text \<open>The value stored at the end of a path of keys, through namespaces only.\<close>

fun get_path :: "jsval \<Rightarrow> string list \<Rightarrow> jsval option" where
  "get_path t [] = Some t"
| "get_path t (k # ks) = (case own_prop t k of None \<Rightarrow> None | Some c \<Rightarrow> get_path c ks)"

fun is_namespace :: "jsval \<Rightarrow> bool" where
  "is_namespace (Obj ps) = True"
| "is_namespace (Str s) = False"
| "is_namespace (Num n) = False"

text \<open>The keys of the path, taken one after the other, all hold namespaces.\<close>

fun namespace_path :: "jsval \<Rightarrow> string list \<Rightarrow> bool" where
  "namespace_path t [] = is_namespace t"
| "namespace_path t (k # ks) =
     (is_namespace t \<and> (case own_prop t k of None \<Rightarrow> False | Some c \<Rightarrow> namespace_path c ks))"



text \<open>No object of the tree has a key twice: the invariant of a JavaScript object.\<close>

fun distinct_keys :: "jsval \<Rightarrow> bool" where
  "distinct_keys (Str s) = True"
| "distinct_keys (Num n) = True"
| "distinct_keys (Obj ps) = (distinct (map fst ps) \<and> list_all (\<lambda>(k, v). distinct_keys v) ps)"

text \<open>The key list of every object of the tree satisfies \<open>P\<close>.\<close>

fun all_nodes :: "(string list \<Rightarrow> bool) \<Rightarrow> jsval \<Rightarrow> bool" where
  "all_nodes P (Str s) = True"
| "all_nodes P (Num n) = True"
| "all_nodes P (Obj ps) = (P (map fst ps) \<and> list_all (\<lambda>(k, v). all_nodes P v) ps)"

text \<open>
  The order in which the keys of a sorted object are enumerated: the array indices first,
  ascending by number, then the other keys, ascending as strings.
\<close>

definition js_key_order :: "string list \<Rightarrow> bool" where
  "js_key_order ks \<longleftrightarrow>
     ks = filter is_array_index ks @ filter (\<lambda>k. \<not> is_array_index k) ks \<and>
     sorted (map index_val (filter is_array_index ks)) \<and>
     sorted (filter (\<lambda>k. \<not> is_array_index k) ks)"

text \<open>The property list that \<^verbatim>\<open>sortJson\<close> assigns to the fresh object.\<close>

definition sorted_props :: "(string \<times> jsval) list \<Rightarrow> (string \<times> jsval) list" where
  "sorted_props ps =
     foldl (\<lambda>a k. obj_put k (sortJson (the (map_of ps k))) a) [] (sort (map fst ps))"

text \<open>
  The eligibility predicate in the words of the specification: the path ends in
  \<^verbatim>\<open>.js\<close>, the file is not the output file \<^verbatim>\<open>index.js\<close>, and no segment of the path is
  \<^verbatim>\<open>node_modules\<close>.
\<close>

definition eligible_spec :: "string \<Rightarrow> bool" where
  "eligible_spec filename \<longleftrightarrow>
     slice_last 3 filename = ''.js'' \<and>
     last (split CHR ''/'' filename) \<noteq> ''index.js'' \<and>
     ''node_modules'' \<notin> set (split CHR ''/'' filename)"

section \<open>Properties of objects\<close>

lemma map_of_obj_replace:
  "map_of ps k \<noteq> None \<Longrightarrow> map_of (obj_replace k v ps) = (map_of ps)(k \<mapsto> v)"
  by (induction ps) (auto simp: fun_eq_iff)

lemma map_of_obj_insert_index:
  "map_of ps k = None \<Longrightarrow> map_of (obj_insert_index k v ps) = (map_of ps)(k \<mapsto> v)"
  by (induction ps) (auto simp: fun_eq_iff split: if_splits)

lemma map_of_obj_put: "map_of (obj_put k v ps) = (map_of ps)(k \<mapsto> v)"
proof -
  have "map_of (ps @ [(k, v)]) = (map_of ps)(k \<mapsto> v)" if "map_of ps k = None"
    using that by (auto simp: fun_eq_iff map_add_def split: option.splits)
  then show ?thesis
    unfolding obj_put_def
    using map_of_obj_replace [of ps k v] map_of_obj_insert_index [of ps k v]
    by (cases "map_of ps k") auto
qed





lemma own_prop_set_prop:
  "is_namespace t \<Longrightarrow> own_prop (set_prop t k v) k' = (if k' = k then Some v else own_prop t k')"
  by (cases t) (simp_all add: map_of_obj_put)

lemma is_namespace_set_prop [simp]: "is_namespace (set_prop t k v) = is_namespace t"
  by (cases t) simp_all

lemma set_prop_primitive: "\<not> is_namespace t \<Longrightarrow> set_prop t k v = t"
  by (cases t) simp_all


section \<open>Properties of the tree builder\<close>


text \<open>Strings and numbers are never changed.\<close>

lemma handleConflicts_primitive:
  "\<not> is_namespace t \<Longrightarrow> handleConflicts atc t k = Inr t' \<Longrightarrow> t' = t"
  by (auto simp: handleConflicts_def set_prop_primitive
      split: sum.splits option.splits if_splits)

lemma attach_primitive:
  assumes "\<not> is_namespace t" and "attachFilenameToLeafNode atc t fp fn pk = Inr t'"
  shows "t' = t"
proof (cases pk)
  case None
  with assms show ?thesis
    by (simp add: attachFilenameToLeafNode_def set_prop_primitive)
next
  case (Some d)
  with assms(2) obtain h child where h: "handleConflicts atc t d = Inr h"
    and t': "t' = set_prop h d child"
    by (auto simp: attachFilenameToLeafNode_def split: sum.splits option.splits)
  from handleConflicts_primitive [OF assms(1) h] assms(1) t' show ?thesis
    by (simp add: set_prop_primitive)
qed

lemma reduce_parts_primitive:
  "\<not> is_namespace t \<Longrightarrow> reduce_parts atc fp fn t ds = Inr t' \<Longrightarrow> t' = t"
proof (induction ds arbitrary: t t')
  case Nil
  then show ?case by simp
next
  case (Cons d ds)
  then show ?case
    by (auto simp: Let_def set_prop_primitive dest: attach_primitive
        split: sum.splits option.splits if_splits)
qed

lemma handleConflicts_namespace:
  assumes "is_namespace t" and "handleConflicts atc t d = Inr h"
  shows "is_namespace h"
  using assms
  by (auto simp: handleConflicts_def split: sum.splits option.splits if_splits)

lemma attach_parent_stored:
  assumes ns: "is_namespace t"
    and r: "attachFilenameToLeafNode atc t fp fn (Some d) = Inr t'"
    and c: "own_prop t' d = Some c" "is_namespace c"
  shows "own_prop c (camelCase fp) = Some (require_expr fn)"
proof -
  from r obtain h child where h: "handleConflicts atc t d = Inr h"
    and g: "get_prop h d = Inr (Some child)"
    and t': "t' = set_prop h d (set_prop child (camelCase fp) (require_expr fn))"
    by (auto simp: attachFilenameToLeafNode_def split: sum.splits option.splits)
  have nh: "is_namespace h" by (rule handleConflicts_namespace [OF ns h])
  with c t' have "c = set_prop child (camelCase fp) (require_expr fn)"
    by (simp add: own_prop_set_prop)
  with c(2) show ?thesis
    by (cases child) (simp_all add: map_of_obj_put)
qed

lemma attach_namespace:
  "is_namespace t \<Longrightarrow> attachFilenameToLeafNode atc t fp fn pk = Inr t' \<Longrightarrow> is_namespace t'"
  by (auto simp: attachFilenameToLeafNode_def dest: handleConflicts_namespace
      split: sum.splits option.splits)

lemma reduce_parts_namespace:
  assumes "is_namespace t" and "reduce_parts atc fp fn t ds = Inr t'"
  shows "is_namespace t'"
proof (cases ds)
  case Nil
  with assms show ?thesis by simp
next
  case (Cons d rest)
  with assms(2) obtain v where v: "get_prop t d = Inr v"
    by (auto split: sum.splits)
  let ?t1 = "if v = None then set_prop t d (Obj []) else t"
  have ns1: "is_namespace ?t1" using assms(1) by simp
  show ?thesis
  proof (cases "rest = []")
    case True
    with assms(2) Cons v
    have "attachFilenameToLeafNode atc ?t1 fp fn (Some d) = Inr t'"
      by (simp add: Let_def)
    from attach_namespace [OF ns1 this] show ?thesis .
  next
    case False
    with assms(2) Cons v obtain child' where "t' = set_prop ?t1 d child'"
      by (auto simp: Let_def split: sum.splits option.splits)
    with ns1 show ?thesis by simp
  qed
qed

lemma reduce_parts_stored:
  assumes "is_namespace t" "ds \<noteq> []"
    and "reduce_parts atc fp fn t ds = Inr t'"
    and "namespace_path t' ds"
  shows "get_path t' (ds @ [camelCase fp]) = Some (require_expr fn)"
  using assms
proof (induction ds arbitrary: t t')
  case Nil
  then show ?case by simp
next
  case (Cons d ds)
  from Cons.prems(3) obtain v where v: "get_prop t d = Inr v"
    by (auto split: sum.splits)
  let ?t1 = "if v = None then set_prop t d (Obj []) else t"
  have ns1: "is_namespace ?t1" using Cons.prems(1) by simp
  show ?case
  proof (cases "ds = []")
    case True
    with Cons.prems(3) v
    have a: "attachFilenameToLeafNode atc ?t1 fp fn (Some d) = Inr t'"
      by (simp add: Let_def)
    from Cons.prems(4) True obtain c where c: "own_prop t' d = Some c" "is_namespace c"
      by (auto split: option.splits)
    from attach_parent_stored [OF ns1 a c] c True show ?thesis by simp
  next
    case False
    from Cons.prems(3) v False obtain child child'
      where g: "get_prop ?t1 d = Inr (Some child)"
        and r: "reduce_parts atc fp fn child ds = Inr child'"
        and t': "t' = set_prop ?t1 d child'"
      by (auto simp: Let_def split: sum.splits option.splits)
    from Cons.prems(4) ns1 have np: "namespace_path child' ds"
      by (simp add: t' own_prop_set_prop)
    have nc: "is_namespace child"
    proof (rule ccontr)
      assume "\<not> is_namespace child"
      from reduce_parts_primitive [OF this r] this np False show False
        by (cases ds) simp_all
    qed
    from Cons.IH [OF nc False r np] ns1 show ?thesis
      by (simp add: t' own_prop_set_prop)
  qed
qed





lemma filenameToJson_stored:
  assumes r: "filenameToJson atc sep (Obj ps) filename = Inr t'"
    and np: "namespace_path t' (butlast (split sep filename))"
  shows "get_path t' (butlast (split sep filename) @
                      [camelCase (slice_but_last 3 (last (split sep filename)))])
           = Some (require_expr filename)"
proof (cases "butlast (split sep filename) = []")
  case True
  with r have "t' = set_prop (Obj ps) (camelCase (slice_but_last 3 (last (split sep filename))))
                     (require_expr filename)"
    by (simp add: filenameToJson_def Let_def attachFilenameToLeafNode_def)
  with True show ?thesis
    by (simp add: map_of_obj_put)
next
  case False
  with r have "reduce_parts atc (slice_but_last 3 (last (split sep filename))) filename (Obj ps)
                 (butlast (split sep filename)) = Inr t'"
    by (simp add: filenameToJson_def Let_def)
  from reduce_parts_stored [OF _ False this np] show ?thesis by simp
qed


section \<open>Properties of the serializer\<close>

lemma keys_obj_put: "set (map fst (obj_put k v ps)) = insert k (set (map fst ps))"
proof -
  have "dom (map_of (obj_put k v ps)) = insert k (dom (map_of ps))"
    by (simp add: map_of_obj_put)
  then show ?thesis by (simp add: dom_map_of_conv_image_fst)
qed

lemma keys_obj_insert_index:
  "map fst ps = I @ N \<Longrightarrow> \<forall>x\<in>set I. is_array_index x \<Longrightarrow> \<forall>x\<in>set N. \<not> is_array_index x \<Longrightarrow>
   map fst (obj_insert_index k v ps) = insort_key index_val k I @ N"
proof (induction I arbitrary: ps)
  case Nil
  then show ?case by (cases ps) auto
next
  case (Cons i I)
  then obtain v' ps' where ps: "ps = (i, v') # ps'" and ps': "map fst ps' = I @ N"
    by (cases ps) auto
  from Cons.IH [OF ps'] Cons.prems(2,3) ps' show ?case
    by (auto simp: ps)
qed

lemma keys_obj_put_fresh:
  assumes "map fst ps = I @ N" "\<forall>x\<in>set I. is_array_index x" "\<forall>x\<in>set N. \<not> is_array_index x"
    and "k \<notin> set (map fst ps)"
  shows "map fst (obj_put k v ps) =
           (if is_array_index k then insort_key index_val k I @ N else I @ N @ [k])"
proof -
  from assms(4) have "map_of ps k = None"
    by (simp add: map_of_eq_None_iff)
  with assms(1) keys_obj_insert_index [OF assms(1-3)] show ?thesis
    by (simp add: obj_put_def)
qed

lemma map_of_foldl_put:
  "map_of (foldl (\<lambda>a k. obj_put k (g k) a) acc ks) x =
     (if x \<in> set ks then Some (g x) else map_of acc x)"
  by (induction ks arbitrary: acc) (auto simp: map_of_obj_put)

lemma keys_foldl_put:
  assumes "map fst acc = I @ N" "\<forall>x\<in>set I. is_array_index x" "\<forall>x\<in>set N. \<not> is_array_index x"
    and "distinct ks" "set ks \<inter> set (map fst acc) = {}"
  shows "map fst (foldl (\<lambda>a k. obj_put k (g k) a) acc ks) =
           foldl (\<lambda>I k. insort_key index_val k I) I (filter is_array_index ks)
             @ N @ filter (\<lambda>k. \<not> is_array_index k) ks"
  using assms
proof (induction ks arbitrary: acc I N)
  case Nil
  then show ?case by simp
next
  case (Cons k ks)
  let ?acc = "obj_put k (g k) acc"
  from Cons.prems(5) have fresh: "k \<notin> set (map fst acc)" by auto
  have keys: "map fst ?acc =
      (if is_array_index k then insort_key index_val k I @ N else I @ N @ [k])"
    by (rule keys_obj_put_fresh [OF Cons.prems(1-3) fresh])
  have disj: "set ks \<inter> set (map fst ?acc) = {}"
    using Cons.prems(4,5) unfolding keys_obj_put by auto
  from Cons.prems(4) have dist: "distinct ks" by simp
  show ?case
  proof (cases "is_array_index k")
    case True
    with keys have k1: "map fst ?acc = insort_key index_val k I @ N" by simp
    have i1: "\<forall>x\<in>set (insort_key index_val k I). is_array_index x"
      using True Cons.prems(2) by (simp add: set_insort_key)
    from Cons.IH [OF k1 i1 Cons.prems(3) dist disj] True show ?thesis by simp
  next
    case False
    with keys have k1: "map fst ?acc = I @ (N @ [k])" by simp
    have n1: "\<forall>x\<in>set (N @ [k]). \<not> is_array_index x"
      using False Cons.prems(3) by simp
    from Cons.IH [OF k1 Cons.prems(2) n1 dist disj] False show ?thesis by simp
  qed
qed

lemma foldl_insort_key:
  "set (foldl (\<lambda>I k. insort_key f k I) I ks) = set I \<union> set ks"
  "sorted (map f I) \<Longrightarrow> sorted (map f (foldl (\<lambda>I k. insort_key f k I) I ks))"
  "length (foldl (\<lambda>I k. insort_key f k I) I ks) = length I + length ks"
  by (induction ks arbitrary: I) (auto simp: set_insort_key sorted_insort_key)

lemma sortJson_Obj:
  "sortJson (Obj ps) =
     Obj (foldl (\<lambda>a k. obj_put k (sortJson (the (map_of ps k))) a) [] (sort (map fst ps)))"
proof -
  have "foldl (\<lambda>sorted key. case map_of ps key of None \<Rightarrow> sorted
                             | Some v \<Rightarrow> obj_put key (sortJson v) sorted) acc ks =
        foldl (\<lambda>a k. obj_put k (sortJson (the (map_of ps k))) a) acc ks"
    if "set ks \<subseteq> set (map fst ps)" for ks acc
    using that
  proof (induction ks arbitrary: acc)
    case (Cons k ks)
    then have "map_of ps k \<noteq> None" by (simp add: map_of_eq_None_iff)
    with Cons show ?case by auto
  qed simp
  from this [of "sort (map fst ps)" "[]"] show ?thesis by simp
qed

lemma sorted_props_keys:
  assumes "distinct (map fst ps)"
  shows "map fst (sorted_props ps) =
           foldl (\<lambda>I k. insort_key index_val k I) [] (filter is_array_index (sort (map fst ps)))
             @ filter (\<lambda>k. \<not> is_array_index k) (sort (map fst ps))"
  unfolding sorted_props_def
  using keys_foldl_put [of "[]" "[]" "[]" "sort (map fst ps)"] assms
  by simp

lemma sorted_props_map_of:
  "map_of (sorted_props ps) k = map_option sortJson (map_of ps k)"
  unfolding sorted_props_def map_of_foldl_put
  by (cases "map_of ps k") (auto simp: map_of_eq_None_iff [symmetric])

lemma sorted_props_set_keys:
  "set (map fst (sorted_props ps)) = set (map fst ps)"
proof -
  have "dom (map_of (sorted_props ps)) = dom (map_of ps)"
    by (auto simp: sorted_props_map_of dom_def)
  then show ?thesis by (simp add: dom_map_of_conv_image_fst)
qed

lemma sorted_props_distinct:
  assumes "distinct (map fst ps)"
  shows "distinct (map fst (sorted_props ps))"
proof -
  have "length (map fst (sorted_props ps)) = length (map fst ps)"
    unfolding sorted_props_keys [OF assms] length_append foldl_insort_key(3)
    using sum_length_filter_compl [of is_array_index "sort (map fst ps)"]
    by simp
  moreover have "card (set (map fst (sorted_props ps))) = length (map fst ps)"
    unfolding sorted_props_set_keys using assms by (rule distinct_card)
  ultimately show ?thesis by (simp add: card_distinct)
qed

lemma sorted_props_order:
  assumes "distinct (map fst ps)"
  shows "js_key_order (map fst (sorted_props ps))"
proof -
  let ?ks = "sort (map fst ps)"
  let ?I = "foldl (\<lambda>I k. insort_key index_val k I) [] (filter is_array_index ?ks)"
  let ?N = "filter (\<lambda>k. \<not> is_array_index k) ?ks"
  have k: "map fst (sorted_props ps) = ?I @ ?N" by (rule sorted_props_keys [OF assms])
  have sI: "set ?I = set (filter is_array_index ?ks)"
    by (simp add: foldl_insort_key(1))
  then have fI: "filter is_array_index ?I = ?I" "filter (\<lambda>k. \<not> is_array_index k) ?I = []"
    by (auto simp: filter_empty_conv)
  have fN: "filter is_array_index ?N = []" by simp
  have "sorted (map index_val ?I)" by (simp add: foldl_insort_key(2))
  moreover have "sorted ?N" by (simp add: sorted_wrt_filter)
  ultimately show ?thesis
    unfolding js_key_order_def k by (simp add: fI fN)
qed

lemma sorted_props_no_index:
  assumes "distinct (map fst ps)" "\<forall>k\<in>set (map fst ps). \<not> is_array_index k"
  shows "map fst (sorted_props ps) = sort (map fst ps)"
proof -
  from assms(2) have "filter is_array_index (sort (map fst ps)) = []"
    "filter (\<lambda>k. \<not> is_array_index k) (sort (map fst ps)) = sort (map fst ps)"
    by (auto simp: filter_empty_conv filter_id_conv)
  then show ?thesis by (simp add: sorted_props_keys [OF assms(1)])
qed

lemma sorted_props_values:
  assumes "distinct (map fst ps)" "(k, v') \<in> set (sorted_props ps)"
  shows "\<exists>v. map_of ps k = Some v \<and> v' = sortJson v"
proof -
  have "distinct (map fst (sorted_props ps))"
    by (rule sorted_props_distinct [OF assms(1)])
  with assms(2) have "map_of (sorted_props ps) k = Some v'" by simp
  then show ?thesis
    by (cases "map_of ps k") (simp_all add: sorted_props_map_of)
qed

lemma sortJson_all_nodes:
  "distinct_keys t \<Longrightarrow> all_nodes js_key_order (sortJson t)"
proof (induction t rule: sortJson.induct)
  case (1 s)
  then show ?case by simp
next
  case (2 n)
  then show ?case by simp
next
  case (3 ps)
  from "3.prems" have d: "distinct (map fst ps)" by simp
  have "all_nodes js_key_order v'" if "(k, v') \<in> set (sorted_props ps)" for k v'
  proof -
    from sorted_props_values [OF d that] obtain v
      where v: "map_of ps k = Some v" "v' = sortJson v" by blast
    from v(1) have in_ps: "(k, v) \<in> set ps" by (rule map_of_SomeD)
    then have "k \<in> set (sort (map fst ps))" by force
    moreover from in_ps "3.prems" have "distinct_keys v"
      by (auto simp: list_all_iff)
    ultimately show ?thesis using "3.IH" v by blast
  qed
  then show ?case
    using sorted_props_order [OF d]
    by (auto simp: sortJson_Obj sorted_props_def [symmetric] list_all_iff
             simp del: sortJson.simps)
qed

lemma all_nodes_mono:
  "all_nodes P t \<Longrightarrow> (\<And>ks. P ks \<Longrightarrow> Q ks) \<Longrightarrow> all_nodes Q t"
  by (induction t) (auto simp: list_all_iff)

lemma all_nodes_conj:
  "all_nodes P t \<Longrightarrow> all_nodes Q t \<Longrightarrow> all_nodes (\<lambda>ks. P ks \<and> Q ks) t"
  by (induction t) (fastforce simp: list_all_iff)+

lemma js_key_order_no_index:
  "js_key_order ks \<Longrightarrow> \<forall>k\<in>set ks. \<not> is_array_index k \<Longrightarrow> sorted ks"
  by (simp add: js_key_order_def filter_id_conv)

lemma sortJson_all_nodes_keys:
  "distinct_keys t \<Longrightarrow> all_nodes (\<lambda>ks. \<forall>k\<in>set ks. Q k) t \<Longrightarrow>
   all_nodes (\<lambda>ks. \<forall>k\<in>set ks. Q k) (sortJson t)"
proof (induction t rule: sortJson.induct)
  case (1 s)
  then show ?case by simp
next
  case (2 n)
  then show ?case by simp
next
  case (3 ps)
  from "3.prems" have d: "distinct (map fst ps)" by simp
  have "all_nodes (\<lambda>ks. \<forall>k\<in>set ks. Q k) v'" if "(k, v') \<in> set (sorted_props ps)" for k v'
  proof -
    from sorted_props_values [OF d that] obtain v
      where v: "map_of ps k = Some v" "v' = sortJson v" by blast
    from v(1) have in_ps: "(k, v) \<in> set ps" by (rule map_of_SomeD)
    then have "k \<in> set (sort (map fst ps))" by force
    moreover from in_ps "3.prems" have "distinct_keys v" "all_nodes (\<lambda>ks. \<forall>k\<in>set ks. Q k) v"
      by (auto simp: list_all_iff)
    ultimately show ?thesis using "3.IH" v by blast
  qed
  moreover have "\<forall>k\<in>set (map fst (sorted_props ps)). Q k"
    unfolding sorted_props_set_keys using "3.prems"(2) by simp
  ultimately show ?case
    by (auto simp: sortJson_Obj sorted_props_def [symmetric] list_all_iff
             simp del: sortJson.simps)
qed

section \<open>Properties of the eligibility predicate\<close>

lemma startsWith_prefix: "startsWith s target \<longleftrightarrow> prefix target s"
  unfolding startsWith_def
  by (metis prefix_def append_eq_conv_conj take_is_prefix)

lemma matches_literal_sublist: "matches_literal pat s \<longleftrightarrow> sublist pat s"
  by (induction s) (auto simp: startsWith_prefix sublist_Cons_right)

lemma slice_last_suffix: "length s = n \<Longrightarrow> slice_last n f = s \<longleftrightarrow> suffix s f"
  unfolding slice_last_def
  by (metis suffix_def append_eq_conv_conj suffix_drop
        length_append add_diff_cancel_right')

section \<open>Scenarios\<close>

lemma lazy_rewrite_scenario:
  "convertToLazyRequireJson ''accountPage: require('./search/account.page.js')'' =
     ''get accountPage() { return require('./search/account.page.js'); }''"
  by code_simp

text \<open>
  Claim C4. Inserting \<^verbatim>\<open>overview.js\<close> into the empty tree and then
  \<^verbatim>\<open>overview/summary.js\<close>, with the default conflict marker \<^verbatim>\<open>Js\<close>, gives a root in
  which \<^verbatim>\<open>overviewJs\<close> holds the leaf of \<^verbatim>\<open>overview.js\<close> and \<^verbatim>\<open>overview\<close> holds a
  namespace whose key \<^verbatim>\<open>summary\<close> holds the leaf of \<^verbatim>\<open>overview/summary.js\<close>.
\<close>

theorem conflict_scenario:
  "insert_files ''Js'' CHR ''/'' (Obj []) [''overview.js'', ''overview/summary.js''] =
     Inr (Obj [(''overview'', Obj [(''summary'', Str ''require('./overview/summary.js')'')]),
               (''overviewJs'', Str ''require('./overview.js')'')])"
  by code_simp

text \<open>
  Claim C1 fails on the code. The two paths \<^verbatim>\<open>overview.js\<close> and
  \<^verbatim>\<open>overview/summary.js\<close> give different sorted trees in their two orders: when the
  directory comes first, the later root file overwrites the namespace, because a file at
  the root is attached without any conflict handling.
\<close>

theorem insertion_order_changes_tree:
  "go_tree ''Js'' CHR ''/'' [''overview.js'', ''overview/summary.js''] =
     Inr (Obj [(''overview'', Obj [(''summary'', Str ''require('./overview/summary.js')'')]),
               (''overviewJs'', Str ''require('./overview.js')'')]) \<and>
   go_tree ''Js'' CHR ''/'' [''overview/summary.js'', ''overview.js''] =
     Inr (Obj [(''overview'', Str ''require('./overview.js')'')])"
  by code_simp

text \<open>
  Claim C2 fails on the code. \<^verbatim>\<open>handleConflicts\<close> runs for the last directory segment
  only. With the leaf of \<^verbatim>\<open>overview.js\<close> in the tree, the path
  \<^verbatim>\<open>overview/summary/table.js\<close> (the tree of the comment above \<^verbatim>\<open>handleConflicts\<close>)
  meets that leaf at an intermediate segment: the leaf stays where it is, the walk goes
  on inside the string and the insertion ends in a \<^verbatim>\<open>TypeError\<close>.
\<close>

theorem intermediate_leaf_not_moved:
  "filenameToJson ''Js'' CHR ''/'' (Obj []) ''overview.js'' =
     Inr (Obj [(''overview'', Str ''require('./overview.js')'')]) \<and>
   filenameToJson ''Js'' CHR ''/'' (Obj [(''overview'', Str ''require('./overview.js')'')])
     ''overview/summary/table.js'' = Inl TypeError"
  by code_simp

text \<open>
  Claim C3 fails on the code. The file \<^verbatim>\<open>my-widget.js\<close> gets the leaf
  \<^verbatim>\<open>require('./my-widget.js')\<close> under the key \<^verbatim>\<open>myWidget\<close>, and the rewriter leaves the
  pair \<^verbatim>\<open>myWidget: require('./my-widget.js')\<close> as it is: the character class of the
  argument has no hyphen.
\<close>

theorem dash_path_not_rewritten:
  "filenameToJson ''Js'' CHR ''/'' (Obj []) ''my-widget.js'' =
     Inr (Obj [(''myWidget'', Str ''require('./my-widget.js')'')]) \<and>
   convertToLazyRequireJson ''myWidget: require('./my-widget.js')'' =
     ''myWidget: require('./my-widget.js')''"
  by code_simp




section \<open>Load expressions\<close>

text \<open>
  Claim C7 fails on the code: nothing turns the separators of the path into forward
  slashes. On a host whose separator is the backslash the leaf of
  \<^verbatim>\<open>search\account.page.js\<close> holds the path with its backslash and without any forward
  slash.
\<close>

theorem backslash_separator_kept:
  "filenameToJson ''Js'' (CHR 0x5C) (Obj []) (''search'' @ [CHR 0x5C] @ ''account.page.js'') =
     Inr (Obj [(''search'',
                Obj [(''accountPage'',
                      Str (''require('./search'' @ [CHR 0x5C] @ ''account.page.js')''))])]) \<and>
   CHR ''/'' \<notin> set (''search'' @ [CHR 0x5C] @ ''account.page.js'')"
  by code_simp

text \<open>
  Claim C7 as amended. When an insertion returns and the directory segments of the path
  hold namespaces in the resulting tree, the leaf of the file is \<^verbatim>\<open>require('./\<close>, the
  path as it was given, \<^verbatim>\<open>')\<close>: the path is prefixed with \<^verbatim>\<open>./\<close> and keeps its own
  separators, which are forward slashes when the path was given with forward slashes.
\<close>

theorem leaf_holds_input_path:
  assumes "filenameToJson appendToConflicts sep (Obj ps) filename = Inr t'"
    and "namespace_path t' (butlast (split sep filename))"
  shows "get_path t' (butlast (split sep filename) @
                      [camelCase (slice_but_last 3 (last (split sep filename)))]) =
           Some (Str (''require('./'' @ filename @ ''')''))"
  using filenameToJson_stored [OF assms] by (simp add: require_expr_def)

theorem leaf_holds_input_path_witness:
  "filenameToJson ''Js'' CHR ''/'' (Obj [(''overview'', Str ''require('./overview.js')'')])
       ''overview/summary.js'' =
     Inr (Obj [(''overview'', Obj [(''summary'', Str ''require('./overview/summary.js')'')]),
               (''overviewJs'', Str ''require('./overview.js')'')]) \<and>
   namespace_path
     (Obj [(''overview'', Obj [(''summary'', Str ''require('./overview/summary.js')'')]),
           (''overviewJs'', Str ''require('./overview.js')'')])
     [''overview''] \<and>
   get_path (Obj [(''overview'', Obj [(''summary'', Str ''require('./overview/summary.js')'')]),
                  (''overviewJs'', Str ''require('./overview.js')'')])
       [''overview'', ''summary''] =
     Some (Str ''require('./overview/summary.js')'')"
  (is "?ins = Inr ?T' \<and> _")
proof -
  have ins: "?ins = Inr ?T'" by code_simp
  have dirs: "butlast (split CHR ''/'' ''overview/summary.js'') = [''overview'']"
    by code_simp
  have key: "camelCase (slice_but_last 3 (last (split CHR ''/'' ''overview/summary.js''))) =
               ''summary''"
    by code_simp
  have np: "namespace_path ?T' (butlast (split CHR ''/'' ''overview/summary.js''))"
    unfolding dirs by simp
  from leaf_holds_input_path [OF ins np]
  have "get_path ?T' [''overview'', ''summary''] = Some (Str ''require('./overview/summary.js')'')"
    unfolding dirs key by simp
  moreover from np have "namespace_path ?T' [''overview'']" unfolding dirs .
  ultimately show ?thesis using ins by blast
qed

section \<open>Sorting\<close>

text \<open>
  Claim C5 fails on the code for keys that are array indices: the fresh object that
  \<^verbatim>\<open>sortJson\<close> fills enumerates \<^verbatim>\<open>9\<close> before \<^verbatim>\<open>10\<close>, although \<^verbatim>\<open>10\<close> comes first
  in the order of strings.
\<close>

theorem array_index_keys_first:
  "sortJson (Obj [(''9'', Str ''require('./9.js')''), (''10'', Str ''require('./10.js')'')]) =
     Obj [(''9'', Str ''require('./9.js')''), (''10'', Str ''require('./10.js')'')] \<and>
   \<not> sorted [''9'', ''10'']"
proof
  show "sortJson (Obj [(''9'', Str ''require('./9.js')''), (''10'', Str ''require('./10.js')'')]) =
     Obj [(''9'', Str ''require('./9.js')''), (''10'', Str ''require('./10.js')'')]"
    by code_simp
  show "\<not> sorted [''9'', ''10'']"
    by simp
qed

text \<open>
  Claim C5 as amended. \<^verbatim>\<open>sortJson\<close> is a total function; it returns a string unchanged.
  An object with distinct keys becomes an object with the same keys, each value sorted
  in turn; its array-index keys come first in ascending numeric order and its other keys
  follow in ascending order of strings, so that an object without array-index keys has
  its keys in ascending order of strings. The same holds for every object inside the
  result.
\<close>

theorem sortJson_key_order:
  "sortJson (Str s) = Str s \<and>
   (distinct_keys (Obj ps) \<longrightarrow>
      (\<exists>qs. sortJson (Obj ps) = Obj qs \<and>
            set (map fst qs) = set (map fst ps) \<and> distinct (map fst qs) \<and>
            (\<forall>k. map_of qs k = map_option sortJson (map_of ps k)) \<and>
            js_key_order (map fst qs) \<and>
            ((\<forall>k\<in>set (map fst ps). \<not> is_array_index k) \<longrightarrow> map fst qs = sort (map fst ps)))) \<and>
   (distinct_keys t \<longrightarrow> all_nodes js_key_order (sortJson t)) \<and>
   (distinct_keys t \<and> all_nodes (\<lambda>ks. \<forall>k\<in>set ks. \<not> is_array_index k) t \<longrightarrow>
      all_nodes sorted (sortJson t))"
proof (intro conjI impI)
  show "sortJson (Str s) = Str s" by simp
next
  assume "distinct_keys (Obj ps)"
  then have d: "distinct (map fst ps)" by simp
  have "sortJson (Obj ps) = Obj (sorted_props ps)"
    by (simp add: sortJson_Obj sorted_props_def del: sortJson.simps)
  moreover have "set (map fst (sorted_props ps)) = set (map fst ps)"
    by (rule sorted_props_set_keys)
  moreover have "distinct (map fst (sorted_props ps))"
    by (rule sorted_props_distinct [OF d])
  moreover have "\<forall>k. map_of (sorted_props ps) k = map_option sortJson (map_of ps k)"
    by (simp add: sorted_props_map_of)
  moreover have "js_key_order (map fst (sorted_props ps))"
    by (rule sorted_props_order [OF d])
  moreover have "(\<forall>k\<in>set (map fst ps). \<not> is_array_index k) \<longrightarrow>
      map fst (sorted_props ps) = sort (map fst ps)"
    using sorted_props_no_index [OF d] by blast
  ultimately show "\<exists>qs. sortJson (Obj ps) = Obj qs \<and>
            set (map fst qs) = set (map fst ps) \<and> distinct (map fst qs) \<and>
            (\<forall>k. map_of qs k = map_option sortJson (map_of ps k)) \<and>
            js_key_order (map fst qs) \<and>
            ((\<forall>k\<in>set (map fst ps). \<not> is_array_index k) \<longrightarrow> map fst qs = sort (map fst ps))"
    by blast
next
  assume "distinct_keys t"
  then show "all_nodes js_key_order (sortJson t)" by (rule sortJson_all_nodes)
next
  assume a: "distinct_keys t \<and> all_nodes (\<lambda>ks. \<forall>k\<in>set ks. \<not> is_array_index k) t"
  then have "all_nodes js_key_order (sortJson t)"
    "all_nodes (\<lambda>ks. \<forall>k\<in>set ks. \<not> is_array_index k) (sortJson t)"
    by (simp_all add: sortJson_all_nodes sortJson_all_nodes_keys)
  then have "all_nodes (\<lambda>ks. js_key_order ks \<and> (\<forall>k\<in>set ks. \<not> is_array_index k)) (sortJson t)"
    by (rule all_nodes_conj)
  then show "all_nodes sorted (sortJson t)"
    by (rule all_nodes_mono) (simp add: js_key_order_no_index)
qed

theorem sortJson_key_order_witness:
  "distinct_keys (Obj [(''9'', Str ''require('./9.js')''),
                       (''10'', Obj [(''z'', Str ''require('./10/z.js')''),
                                     (''a'', Str ''require('./10/a.js')'')]),
                       (''b'', Str ''require('./b.js')'')]) \<and>
   all_nodes js_key_order
     (sortJson (Obj [(''9'', Str ''require('./9.js')''),
                     (''10'', Obj [(''z'', Str ''require('./10/z.js')''),
                                   (''a'', Str ''require('./10/a.js')'')]),
                     (''b'', Str ''require('./b.js')'')])) \<and>
   sortJson (Obj [(''9'', Str ''require('./9.js')''),
                  (''10'', Obj [(''z'', Str ''require('./10/z.js')''),
                                (''a'', Str ''require('./10/a.js')'')]),
                  (''b'', Str ''require('./b.js')'')]) =
     Obj [(''9'', Str ''require('./9.js')''),
          (''10'', Obj [(''a'', Str ''require('./10/a.js')''),
                        (''z'', Str ''require('./10/z.js')'')]),
          (''b'', Str ''require('./b.js')'')] \<and>
   distinct_keys (Obj [(''util'', Str ''require('./util.js')''),
                       (''search'', Obj [(''keywordPage'', Str ''require('./search/keyword.page.js')''),
                                         (''accountPage'', Str ''require('./search/account.page.js')'')])]) \<and>
   all_nodes (\<lambda>ks. \<forall>k\<in>set ks. \<not> is_array_index k)
     (Obj [(''util'', Str ''require('./util.js')''),
           (''search'', Obj [(''keywordPage'', Str ''require('./search/keyword.page.js')''),
                             (''accountPage'', Str ''require('./search/account.page.js')'')])]) \<and>
   all_nodes sorted
     (sortJson (Obj [(''util'', Str ''require('./util.js')''),
                     (''search'', Obj [(''keywordPage'', Str ''require('./search/keyword.page.js')''),
                                       (''accountPage'', Str ''require('./search/account.page.js')'')])]))"
  (is "distinct_keys ?T1 \<and> _ \<and> _ = ?S1 \<and> distinct_keys ?T2 \<and> all_nodes ?noidx ?T2 \<and> _")
proof -
  have d1: "distinct_keys ?T1" by simp
  have e1: "sortJson ?T1 = ?S1" by code_simp
  have d2: "distinct_keys ?T2" by simp
  have n2: "all_nodes ?noidx ?T2"
    by (simp add: is_array_index_def is_digit_def)
  from sortJson_key_order [of "[]" "[]" ?T1] d1
  have o1: "all_nodes js_key_order (sortJson ?T1)" by blast
  from sortJson_key_order [of "[]" "[]" ?T2] d2 n2
  have o2: "all_nodes sorted (sortJson ?T2)" by blast
  from d1 e1 d2 n2 o1 o2 show ?thesis by blast
qed

text \<open>
  Claim C8. Sorting is idempotent: sorting a sorted tree gives the same tree again.
\<close>

theorem sortJson_idempotent:
  "distinct_keys t \<Longrightarrow> sortJson (sortJson t) = sortJson t"
proof (induction t rule: sortJson.induct)
  case (1 s)
  then show ?case by simp
next
  case (2 n)
  then show ?case by simp
next
  case (3 ps)
  from "3.prems" have d: "distinct (map fst ps)" by simp
  let ?qs = "sorted_props ps"
  have ks: "sort (map fst ?qs) = sort (map fst ps)"
    by (rule sorted_distinct_set_unique)
       (simp_all add: sorted_props_set_keys sorted_props_distinct [OF d] d
          del: set_map distinct_map)
  have vals: "sortJson (the (map_of ?qs k)) = the (map_of ?qs k)"
    if "k \<in> set (sort (map fst ps))" for k
  proof -
    from that obtain v where v: "map_of ps k = Some v"
      by (cases "map_of ps k") (auto simp: map_of_eq_None_iff)
    then have "(k, v) \<in> set ps" by (rule map_of_SomeD)
    with "3.prems" have "distinct_keys v" by (auto simp: list_all_iff)
    with "3.IH" that v have "sortJson (sortJson v) = sortJson v" by blast
    with v show ?thesis by (simp add: sorted_props_map_of)
  qed
  have vals': "the (map_of ?qs k) = sortJson (the (map_of ps k))"
    if "k \<in> set (sort (map fst ps))" for k
  proof -
    from that obtain v where v: "map_of ps k = Some v"
      by (cases "map_of ps k") (auto simp: map_of_eq_None_iff)
    then show ?thesis by (simp add: sorted_props_map_of)
  qed
  have "sorted_props ?qs =
          foldl (\<lambda>a k. obj_put k (the (map_of ?qs k)) a) [] (sort (map fst ps))"
    unfolding sorted_props_def [of ?qs] ks
    by (rule foldl_cong) (simp_all add: vals)
  also have "\<dots> = foldl (\<lambda>a k. obj_put k (sortJson (the (map_of ps k))) a) []
                      (sort (map fst ps))"
    by (rule foldl_cong) (simp_all add: vals')
  finally have "sorted_props ?qs = ?qs" by (simp add: sorted_props_def)
  then show ?case
    by (simp add: sortJson_Obj sorted_props_def [symmetric] del: sortJson.simps)
qed

theorem sortJson_idempotent_witness:
  "distinct_keys (Obj [(''9'', Str ''require('./9.js')''),
                       (''10'', Obj [(''z'', Str ''require('./10/z.js')''),
                                     (''a'', Str ''require('./10/a.js')'')]),
                       (''b'', Str ''require('./b.js')'')]) \<and>
   sortJson (sortJson (Obj [(''9'', Str ''require('./9.js')''),
                            (''10'', Obj [(''z'', Str ''require('./10/z.js')''),
                                          (''a'', Str ''require('./10/a.js')'')]),
                            (''b'', Str ''require('./b.js')'')])) =
     sortJson (Obj [(''9'', Str ''require('./9.js')''),
                    (''10'', Obj [(''z'', Str ''require('./10/z.js')''),
                                  (''a'', Str ''require('./10/a.js')'')]),
                    (''b'', Str ''require('./b.js')'')])"
  (is "distinct_keys ?T \<and> _")
proof -
  have d: "distinct_keys ?T" by simp
  from d sortJson_idempotent [OF d] show ?thesis by (rule conjI)
qed

section \<open>The eligibility predicate\<close>

text \<open>
  Claim C6 fails on the code in one direction: \<^verbatim>\<open>myindex.js\<close> ends in \<^verbatim>\<open>.js\<close>, is not
  the file \<^verbatim>\<open>index.js\<close> and has no \<^verbatim>\<open>node_modules\<close> segment, and the predicate rejects
  it.
\<close>

theorem eligible_spec_differs:
  "eligible_spec ''myindex.js'' \<and> \<not> shouldBeIndexed ''myindex.js''"
  by (simp add: eligible_spec_def shouldBeIndexed_def slice_last_def)

text \<open>
  Claim C6 as amended. The predicate holds exactly for the paths that end in \<^verbatim>\<open>.js\<close>,
  do not end in \<^verbatim>\<open>index.js\<close> and do not contain the text \<^verbatim>\<open>node_modules\<close> anywhere.
\<close>

theorem shouldBeIndexed_iff:
  "shouldBeIndexed filename \<longleftrightarrow>
     suffix ''.js'' filename \<and> \<not> suffix ''index.js'' filename \<and>
     \<not> sublist ''node_modules'' filename"
  using slice_last_suffix [of "''.js''" 3 filename]
    slice_last_suffix [of "''index.js''" 8 filename]
  by (simp add: shouldBeIndexed_def matches_literal_sublist)

text \<open>
  Claim C10. The exclusion of the output file compares the last eight characters of the
  path with \<^verbatim>\<open>index.js\<close>, so every path that ends in \<^verbatim>\<open>index.js\<close> is rejected, among
  them \<^verbatim>\<open>myindex.js\<close> and \<^verbatim>\<open>searchindex.js\<close>.
\<close>

theorem index_suffix_rejected:
  "\<not> shouldBeIndexed (p @ ''index.js'') \<and>
   \<not> shouldBeIndexed ''myindex.js'' \<and> \<not> shouldBeIndexed ''searchindex.js''"
proof -
  have "slice_last 8 (p @ ''index.js'') = ''index.js''" for p
    by (simp add: slice_last_def)
  then have "\<not> shouldBeIndexed (p @ ''index.js'')" for p
    by (simp add: shouldBeIndexed_def)
  from this [of p] this [of "''my''"] this [of "''search''"] show ?thesis by simp
qed

end
